theory Spec2Isabelle
  imports Complex_Main
begin

section \<open>Numbers, errors and checked primitives\<close>

text \<open>
  The embedding follows \<^verbatim>\<open>gpx_analyzer.py\<close> function by function.

  A finite Python float is a \<^typ>\<open>real\<close>. Where rounding decides an exception or a branch
  (in \<^verbatim>\<open>haversine\<close>, in the running sum of \<^verbatim>\<open>compute_distances\<close> and in the product
  \<^verbatim>\<open>slope * 100\<close> of \<^verbatim>\<open>slope_to_color\<close>) every float operation is the exact operation
  followed by the rounding of the platform, which is a parameter of the model (the record
  \<open>fpu\<close> below). What is proved for every \<open>fpu\<close> holds for the doubles of the machine; a
  theorem that needs a property of the arithmetic assumes it (\<open>sound_fpu\<close>). The
  interpolation and the segmentation are computed exactly.
  Where the source itself handles the special values (\<^verbatim>\<open>float('inf')\<close> in
  \<^verbatim>\<open>waypoint_positions\<close>, an infinite or NaN slope in \<^verbatim>\<open>slope_to_color\<close>) the type \<open>pyfloat\<close>
  adds them, with the IEEE rules for multiplication and for the comparison \<^verbatim>\<open><\<close>.

  Every exception the source can raise in the modelled functions is a value of
  \<open>error\<close>; a function that can raise returns \<open>error + 'a\<close> with \<open>Inl\<close> the error.
\<close>

datatype error = IndexError | ZeroDivisionError | ValueError

datatype pyfloat = Finite real | PosInf | NegInf | NaN

text \<open>
  The floating-point arithmetic of the platform: \<open>rnd\<close> rounds an exact result to a double
  (with unbounded exponent range; overflow is decided by \<open>overflow\<close> below), and \<open>fsin\<close>,
  \<open>fcos\<close>, \<open>fatan2\<close> are the functions \<^verbatim>\<open>math.sin\<close>, \<^verbatim>\<open>math.cos\<close>, \<^verbatim>\<open>math.atan2\<close> of the C
  library on finite doubles.
\<close>

record fpu =
  rnd :: "real \<Rightarrow> real"
  fsin :: "real \<Rightarrow> real"
  fcos :: "real \<Rightarrow> real"
  fatan2 :: "real \<Rightarrow> real \<Rightarrow> real"

text \<open>The operations \<^verbatim>\<open>+\<close>, \<^verbatim>\<open>-\<close>, \<^verbatim>\<open>*\<close>, \<^verbatim>\<open>/\<close>, \<^verbatim>\<open>** 2\<close> on finite floats.\<close>

definition fl_add :: "fpu \<Rightarrow> real \<Rightarrow> real \<Rightarrow> real" where
  "fl_add F x y = rnd F (x + y)"

definition fl_sub :: "fpu \<Rightarrow> real \<Rightarrow> real \<Rightarrow> real" where
  "fl_sub F x y = rnd F (x - y)"

definition fl_mul :: "fpu \<Rightarrow> real \<Rightarrow> real \<Rightarrow> real" where
  "fl_mul F x y = rnd F (x * y)"

definition fl_div :: "fpu \<Rightarrow> real \<Rightarrow> real \<Rightarrow> real" where
  "fl_div F x y = rnd F (x / y)"

definition fl_square :: "fpu \<Rightarrow> real \<Rightarrow> real" where
  "fl_square F x = rnd F (x\<^sup>2)"

text \<open>The largest finite double, and a rounded result as a float: an infinity beyond it.\<close>

definition max_double :: real where
  "max_double = (2 ^ 53 - 1) * 2 ^ 971"

definition overflow :: "real \<Rightarrow> pyfloat" where
  "overflow x = (if max_double < x then PosInf else if x < - max_double then NegInf else Finite x)"

text \<open>IEEE multiplication: the rounded product of finite operands, the rules for the rest.\<close>

fun fmul :: "fpu \<Rightarrow> pyfloat \<Rightarrow> pyfloat \<Rightarrow> pyfloat" where
  "fmul F NaN y = NaN"
| "fmul F x NaN = NaN"
| "fmul F (Finite a) (Finite b) = overflow (rnd F (a * b))"
| "fmul F (Finite a) PosInf = (if a = 0 then NaN else if 0 < a then PosInf else NegInf)"
| "fmul F (Finite a) NegInf = (if a = 0 then NaN else if 0 < a then NegInf else PosInf)"
| "fmul F PosInf (Finite b) = (if b = 0 then NaN else if 0 < b then PosInf else NegInf)"
| "fmul F NegInf (Finite b) = (if b = 0 then NaN else if 0 < b then NegInf else PosInf)"
| "fmul F PosInf PosInf = PosInf"
| "fmul F PosInf NegInf = NegInf"
| "fmul F NegInf PosInf = NegInf"
| "fmul F NegInf NegInf = PosInf"

text \<open>The comparison \<^verbatim>\<open>x < y\<close> of two floats: false whenever an operand is NaN.\<close>

fun flt :: "pyfloat \<Rightarrow> pyfloat \<Rightarrow> bool" where
  "flt NaN y = False"
| "flt x NaN = False"
| "flt (Finite a) (Finite b) = (a < b)"
| "flt (Finite a) PosInf = True"
| "flt (Finite a) NegInf = False"
| "flt PosInf y = False"
| "flt NegInf (Finite b) = True"
| "flt NegInf PosInf = True"
| "flt NegInf NegInf = False"

text \<open>
  Sequencing of computations that may raise: the first error ends the computation.
\<close>

definition then_do :: "error + 'a \<Rightarrow> ('a \<Rightarrow> error + 'b) \<Rightarrow> error + 'b" where
  "then_do m f = (case m of Inl e \<Rightarrow> Inl e | Inr v \<Rightarrow> f v)"

text \<open>\<^verbatim>\<open>xs[-1]\<close>: raises IndexError on the empty list.\<close>

definition py_last :: "'a list \<Rightarrow> error + 'a" where
  "py_last xs = (if xs = [] then Inl IndexError else Inr (last xs))"

text \<open>\<^verbatim>\<open>xs[i]\<close> for a non-negative index \<open>i\<close>: raises IndexError past the end.\<close>

definition py_index :: "'a list \<Rightarrow> nat \<Rightarrow> error + 'a" where
  "py_index xs i = (if i < length xs then Inr (xs ! i) else Inl IndexError)"

text \<open>\<^verbatim>\<open>a / b\<close> on floats: raises ZeroDivisionError when the divisor is zero.\<close>

definition py_truediv :: "real \<Rightarrow> real \<Rightarrow> error + real" where
  "py_truediv a b = (if b = 0 then Inl ZeroDivisionError else Inr (a / b))"

text \<open>\<^verbatim>\<open>a // b\<close> on floats: the floor of the quotient, as a float.\<close>

definition py_floordiv :: "real \<Rightarrow> real \<Rightarrow> error + real" where
  "py_floordiv a b = (if b = 0 then Inl ZeroDivisionError else Inr (of_int \<lfloor>a / b\<rfloor>))"

text \<open>\<^verbatim>\<open>int(x)\<close> on a float: truncation towards zero.\<close>

definition py_int :: "real \<Rightarrow> int" where
  "py_int x = (if 0 \<le> x then \<lfloor>x\<rfloor> else \<lceil>x\<rceil>)"

text \<open>
  \<^verbatim>\<open>range(start, stop, step)\<close> as the list of its elements; a zero step raises
  ValueError. The number of elements is the one CPython computes.
\<close>

definition range_len :: "int \<Rightarrow> int \<Rightarrow> int \<Rightarrow> nat" where
  "range_len start stop step =
     (if 0 < step then (if start < stop then nat ((stop - start - 1) div step + 1) else 0)
      else (if stop < start then nat ((start - stop - 1) div (- step) + 1) else 0))"

definition py_range :: "int \<Rightarrow> int \<Rightarrow> int \<Rightarrow> error + int list" where
  "py_range start stop step =
     (if step = 0 then Inl ValueError
      else Inr (map (\<lambda>i. start + int i * step) [0..<range_len start stop step]))"

text \<open>
  \<^verbatim>\<open>math.sqrt\<close>: raises ValueError (math domain error) on a negative argument, and returns
  the rounded square root otherwise.
\<close>

definition py_sqrt :: "fpu \<Rightarrow> real \<Rightarrow> error + real" where
  "py_sqrt F x = (if x < 0 then Inl ValueError else Inr (rnd F (sqrt x)))"

text \<open>
  \<^verbatim>\<open>math.radians\<close>: the product with the constant of the C source, the double \<open>pi\<close>
  divided by 180.
\<close>

definition radians :: "fpu \<Rightarrow> real \<Rightarrow> real" where
  "radians F x = fl_mul F x (fl_div F (rnd F pi) 180)"

text \<open>
  Exact arithmetic as one instance of the parameter: no rounding, and the mathematical
  sine, cosine and angle of the point \<open>(x, y)\<close>.
\<close>

definition atan2 :: "real \<Rightarrow> real \<Rightarrow> real" where
  "atan2 y x =
     (if 0 < x then arctan (y / x)
      else if x < 0 then (if 0 \<le> y then arctan (y / x) + pi else arctan (y / x) - pi)
      else if 0 < y then pi / 2
      else if y < 0 then - (pi / 2)
      else 0)"

definition exact_fpu :: fpu where
  "exact_fpu = \<lparr>rnd = (\<lambda>x. x), fsin = sin, fcos = cos, fatan2 = atan2\<rparr>"

text \<open>
  What the theorems on the sign, the order and the symmetry of the distances need of the
  arithmetic, all of it true of the doubles and of the C library: rounding is monotone and
  odd, leaves every double (and so 1) as it is, \<^verbatim>\<open>math.sin\<close> is odd, and \<^verbatim>\<open>math.atan2\<close> is
  not negative on the first quadrant and 0 at \<open>(1, 0)\<close>. Both instances below have these
  properties (\<open>sound_fpu_exact\<close>, \<open>sound_fpu_double\<close>).
\<close>

definition sound_fpu :: "fpu \<Rightarrow> bool" where
  "sound_fpu F =
     ((\<forall>x y. x \<le> y \<longrightarrow> rnd F x \<le> rnd F y)
      \<and> (\<forall>x. rnd F (rnd F x) = rnd F x)
      \<and> (\<forall>x. rnd F (- x) = - rnd F x)
      \<and> rnd F 1 = 1
      \<and> (\<forall>x. fsin F (- x) = - fsin F x)
      \<and> (\<forall>y x. 0 \<le> y \<and> 0 \<le> x \<longrightarrow> 0 \<le> fatan2 F y x)
      \<and> fatan2 F 0 1 = 0)"

text \<open>
  Rounding to the nearest double, ties to even, as a second instance: a non-zero \<open>x\<close> lies in
  the binade \<open>[2 ^ e, 2 ^ (e + 1))\<close> with \<open>e = \<lfloor>log 2 \<bar>x\<bar>\<rfloor>\<close>, where the doubles are the
  multiples of \<open>2 ^ (e - 52)\<close> (subnormal numbers are left out). Its sine, cosine and
  \<open>atan2\<close> are the correctly rounded ones: the double nearest to the mathematical value.
\<close>

definition round_even :: "real \<Rightarrow> int" where
  "round_even y =
     (if y - of_int \<lfloor>y\<rfloor> < 1 / 2 then \<lfloor>y\<rfloor>
      else if 1 / 2 < y - of_int \<lfloor>y\<rfloor> then \<lfloor>y\<rfloor> + 1
      else if even \<lfloor>y\<rfloor> then \<lfloor>y\<rfloor> else \<lfloor>y\<rfloor> + 1)"

definition round_double :: "real \<Rightarrow> real" where
  "round_double x =
     (if x = 0 then 0
      else of_int (round_even (x / 2 powr (of_int \<lfloor>log 2 \<bar>x\<bar>\<rfloor> - 52)))
           * 2 powr (of_int \<lfloor>log 2 \<bar>x\<bar>\<rfloor> - 52))"

definition double_fpu :: fpu where
  "double_fpu = \<lparr>rnd = round_double,
                 fsin = (\<lambda>x. round_double (sin x)),
                 fcos = (\<lambda>x. round_double (cos x)),
                 fatan2 = (\<lambda>y x. round_double (atan2 y x))\<rparr>"

section \<open>The program\<close>

type_synonym trkpt = "real \<times> real \<times> real"
type_synonym wpt = "real \<times> real \<times> string"
type_synonym segment = "real \<times> real \<times> real"

subsection \<open>haversine\<close>

text \<open>The quantity \<^verbatim>\<open>a\<close> of \<^verbatim>\<open>haversine\<close>.\<close>

definition haversine_a :: "fpu \<Rightarrow> real \<Rightarrow> real \<Rightarrow> real \<Rightarrow> real \<Rightarrow> real" where
  "haversine_a F lat1 lon1 lat2 lon2 =
     (let phi1 = radians F lat1;
          phi2 = radians F lat2;
          d_phi = radians F (fl_sub F lat2 lat1);
          d_lambda = radians F (fl_sub F lon2 lon1)
      in fl_add F (fl_square F (fsin F (fl_div F d_phi 2)))
           (fl_mul F (fl_mul F (fcos F phi1) (fcos F phi2))
              (fl_square F (fsin F (fl_div F d_lambda 2)))))"

definition haversine :: "fpu \<Rightarrow> real \<Rightarrow> real \<Rightarrow> real \<Rightarrow> real \<Rightarrow> error + real" where
  "haversine F lat1 lon1 lat2 lon2 =
     (let a = haversine_a F lat1 lon1 lat2 lon2 in
      then_do (py_sqrt F a) (\<lambda>sa.
      then_do (py_sqrt F (fl_sub F 1 a)) (\<lambda>sb.
      Inr (fl_mul F 6371000 (fl_mul F 2 (fatan2 F sa sb))))))"

text \<open>The value \<^verbatim>\<open>haversine\<close> returns when neither square root raises.\<close>

definition haversine_value :: "fpu \<Rightarrow> real \<Rightarrow> real \<Rightarrow> real \<Rightarrow> real \<Rightarrow> real" where
  "haversine_value F lat1 lon1 lat2 lon2 =
     fl_mul F 6371000 (fl_mul F 2
       (fatan2 F (rnd F (sqrt (haversine_a F lat1 lon1 lat2 lon2)))
                 (rnd F (sqrt (fl_sub F 1 (haversine_a F lat1 lon1 lat2 lon2))))))"

subsection \<open>compute\_distances\<close>

text \<open>
  The loop \<^verbatim>\<open>for i in range(1, len(trkpts))\<close> with the list \<^verbatim>\<open>dists\<close> it appends to.
\<close>

function compute_distances_loop ::
  "fpu \<Rightarrow> nat \<Rightarrow> trkpt list \<Rightarrow> real list \<Rightarrow> error + real list" where
  "compute_distances_loop F i trkpts dists =
     (if i < length trkpts then
        (let lat1 = fst (trkpts ! (i - 1)); lon1 = fst (snd (trkpts ! (i - 1)));
             lat2 = fst (trkpts ! i); lon2 = fst (snd (trkpts ! i)) in
         then_do (haversine F lat1 lon1 lat2 lon2) (\<lambda>d.
         then_do (py_last dists) (\<lambda>l.
         compute_distances_loop F (Suc i) trkpts (dists @ [fl_add F l d]))))
      else Inr dists)"
  by pat_completeness auto
termination
  by (relation "measure (\<lambda>(F, i, trkpts, dists). length trkpts - i)") auto

definition compute_distances :: "fpu \<Rightarrow> trkpt list \<Rightarrow> error + real list" where
  "compute_distances F trkpts = compute_distances_loop F 1 trkpts [0]"

subsection \<open>interpolate\_elevation\<close>

text \<open>The body of the loop once \<^verbatim>\<open>distance <= dists[i]\<close> holds.\<close>

definition interpolate_at :: "nat \<Rightarrow> real \<Rightarrow> real list \<Rightarrow> real list \<Rightarrow> error + real" where
  "interpolate_at i distance dists eles =
     (let d0 = dists ! (i - 1); d1 = dists ! i in
      then_do (py_index eles (i - 1)) (\<lambda>e0.
      then_do (py_index eles i) (\<lambda>e1.
      if d1 = d0 then Inr e1
      else then_do (py_truediv (distance - d0) (d1 - d0)) (\<lambda>ratio.
           Inr (e0 + ratio * (e1 - e0))))))"

text \<open>The loop \<^verbatim>\<open>for i in range(1, len(dists))\<close> and the return after it.\<close>

function interpolate_loop :: "nat \<Rightarrow> real \<Rightarrow> real list \<Rightarrow> real list \<Rightarrow> error + real" where
  "interpolate_loop i distance dists eles =
     (if i < length dists then
        (if distance \<le> dists ! i then interpolate_at i distance dists eles
         else interpolate_loop (Suc i) distance dists eles)
      else py_last eles)"
  by pat_completeness auto
termination
  by (relation "measure (\<lambda>(i, distance, dists, eles). length dists - i)") auto

definition interpolate_elevation :: "real \<Rightarrow> real list \<Rightarrow> real list \<Rightarrow> error + real" where
  "interpolate_elevation distance dists eles = interpolate_loop 1 distance dists eles"

subsection \<open>slope\_to\_color\<close>

text \<open>The chain \<^verbatim>\<open>if pct < 0: ... elif pct < 3: ... else: ...\<close> on the percent grade.\<close>

definition color_of_pct :: "pyfloat \<Rightarrow> string" where
  "color_of_pct pct =
     (if flt pct (Finite 0) then ''blue''
      else if flt pct (Finite 3) then ''darkgreen''
      else if flt pct (Finite 6) then ''limegreen''
      else if flt pct (Finite 10) then ''yellow''
      else if flt pct (Finite 15) then ''orange''
      else ''red'')"

definition slope_to_color :: "fpu \<Rightarrow> pyfloat \<Rightarrow> string" where
  "slope_to_color F slope = (let pct = fmul F slope (Finite 100) in color_of_pct pct)"

subsection \<open>segment\_slopes\<close>

text \<open>
  The expression
  \<^verbatim>\<open>(end_e - start_e) / seg_dist if seg_dist != 0 else 0\<close>.
\<close>

definition segment_slope :: "real \<Rightarrow> real \<Rightarrow> real \<Rightarrow> error + real" where
  "segment_slope start_e end_e seg_dist =
     (if seg_dist \<noteq> 0 then py_truediv (end_e - start_e) seg_dist else Inr 0)"

text \<open>
  The loop \<^verbatim>\<open>for i in range(len(boundaries)-1)\<close> over the consecutive pairs
  \<^verbatim>\<open>boundaries[i], boundaries[i+1]\<close>.
\<close>

fun segments_of :: "real list \<Rightarrow> real list \<Rightarrow> real list \<Rightarrow> error + segment list" where
  "segments_of (start_d # end_d # bs) dists eles =
     then_do (interpolate_elevation start_d dists eles) (\<lambda>start_e.
     then_do (interpolate_elevation end_d dists eles) (\<lambda>end_e.
     then_do (segment_slope start_e end_e (end_d - start_d)) (\<lambda>slope.
     then_do (segments_of (end_d # bs) dists eles) (\<lambda>segments.
     Inr ((start_d, end_d, slope) # segments)))))"
| "segments_of bs dists eles = Inr []"

text \<open>
  The list \<^verbatim>\<open>boundaries\<close>: the range of integer multiples of \<^verbatim>\<open>int(segment)\<close>, and the
  total distance appended when the last multiple is below it.
\<close>

definition boundaries_of :: "real \<Rightarrow> real \<Rightarrow> error + real list" where
  "boundaries_of total_d segment =
     then_do (py_floordiv total_d segment) (\<lambda>q.
     then_do (py_range 0 (py_int q * py_int segment + py_int segment + 1) (py_int segment)) (\<lambda>r.
     let boundaries = map real_of_int r in
     then_do (py_last boundaries) (\<lambda>b.
     Inr (if b < total_d then boundaries @ [total_d] else boundaries))))"

definition segment_slopes :: "real list \<Rightarrow> real list \<Rightarrow> real \<Rightarrow> error + segment list" where
  "segment_slopes dists eles segment =
     then_do (py_last dists) (\<lambda>total_d.
     then_do (boundaries_of total_d segment) (\<lambda>boundaries.
     segments_of boundaries dists eles))"

subsection \<open>waypoint\_positions\<close>

text \<open>
  The inner loop \<^verbatim>\<open>for i, (tlat, tlon, _) in enumerate(trkpts)\<close>, with the pair
  \<^verbatim>\<open>(min_idx, min_dist)\<close> it updates; \<open>i\<close> is the index of the head of the list.
\<close>

fun nearest_scan ::
  "fpu \<Rightarrow> real \<Rightarrow> real \<Rightarrow> trkpt list \<Rightarrow> nat \<Rightarrow> nat \<times> pyfloat \<Rightarrow> error + (nat \<times> pyfloat)" where
  "nearest_scan F lat lon [] i st = Inr st"
| "nearest_scan F lat lon ((tlat, tlon, tele) # ts) i (min_idx, min_dist) =
     then_do (haversine F lat lon tlat tlon) (\<lambda>d.
     nearest_scan F lat lon ts (Suc i)
       (if flt (Finite d) min_dist then (i, Finite d) else (min_idx, min_dist)))"


fun waypoint_positions ::
  "fpu \<Rightarrow> wpt list \<Rightarrow> trkpt list \<Rightarrow> real list \<Rightarrow> error + (real \<times> string) list" where
  "waypoint_positions F [] trkpts dists = Inr []"
| "waypoint_positions F ((lat, lon, name) # ws) trkpts dists =
     then_do (nearest_scan F lat lon trkpts 0 (0, PosInf)) (\<lambda>st.
     then_do (py_index dists (fst st)) (\<lambda>pos.
     then_do (waypoint_positions F ws trkpts dists) (\<lambda>positions.
     Inr ((pos, name) # positions))))"

subsection \<open>plot\_profile and main\<close>

text \<open>
  Drawing is done by an external library. The model records what \<^verbatim>\<open>plot_profile\<close> hands to it:
  the profile line, one filled region per segment (its two coordinate lists and its colour),
  and one marker and one text label per waypoint.
\<close>

record plot =
  line_d :: "real list"
  line_e :: "real list"
  fills :: "(real list \<times> real list \<times> string) list"
  markers :: "(real \<times> real) list"
  labels :: "(real \<times> real \<times> string) list"

text \<open>The loop \<^verbatim>\<open>for start_d, end_d, slope in segments\<close>.\<close>

fun fill_segments ::
  "fpu \<Rightarrow> segment list \<Rightarrow> real list \<Rightarrow> real list \<Rightarrow>
   error + (real list \<times> real list \<times> string) list" where
  "fill_segments F [] dists eles = Inr []"
| "fill_segments F ((start_d, end_d, slope) # segments) dists eles =
     then_do (interpolate_elevation start_d dists eles) (\<lambda>start_e.
     let inner = filter (\<lambda>de. start_d < fst de \<and> fst de < end_d) (zip dists eles) in
     then_do (interpolate_elevation end_d dists eles) (\<lambda>end_e.
     let seg_d = [start_d] @ map fst inner @ [end_d];
         seg_e = [start_e] @ map snd inner @ [end_e];
         color = slope_to_color F (Finite slope) in
     then_do (fill_segments F segments dists eles) (\<lambda>rest.
     Inr ((seg_d, seg_e, color) # rest))))"

text \<open>The loop \<^verbatim>\<open>for dist_pos, name in positions\<close>.\<close>

fun mark_waypoints ::
  "(real \<times> string) list \<Rightarrow> real list \<Rightarrow> real list \<Rightarrow>
   error + ((real \<times> real) list \<times> (real \<times> real \<times> string) list)" where
  "mark_waypoints [] dists eles = Inr ([], [])"
| "mark_waypoints ((dist_pos, name) # positions) dists eles =
     then_do (interpolate_elevation dist_pos dists eles) (\<lambda>ele.
     then_do (mark_waypoints positions dists eles) (\<lambda>rest.
     Inr ((dist_pos, ele) # fst rest, (dist_pos, ele + 5, name) # snd rest)))"

definition plot_profile :: "fpu \<Rightarrow> trkpt list \<Rightarrow> wpt list \<Rightarrow> error + plot" where
  "plot_profile F trkpts wpts =
     then_do (compute_distances F trkpts) (\<lambda>dists.
     let eles = map (\<lambda>pt. snd (snd pt)) trkpts in
     then_do (segment_slopes dists eles 100) (\<lambda>segments.
     then_do (fill_segments F segments dists eles) (\<lambda>fs.
     then_do (waypoint_positions F wpts trkpts dists) (\<lambda>positions.
     then_do (mark_waypoints positions dists eles) (\<lambda>ms.
     Inr \<lparr>line_d = dists, line_e = eles, fills = fs, markers = fst ms, labels = snd ms\<rparr>)))))"

text \<open>
  What a run of \<^verbatim>\<open>main\<close> does after \<^verbatim>\<open>parse_gpx\<close> has returned the track points and the
  waypoints (parsing the file is outside the model): the list of its visible effects, a
  printed line or a shown plot.
\<close>

datatype effect = Printed string | Shown plot

definition main :: "fpu \<Rightarrow> trkpt list \<times> wpt list \<Rightarrow> error + effect list" where
  "main F parsed =
     (let trkpts = fst parsed; wpts = snd parsed in
      if trkpts = [] then Inr [Printed ''No track points found.'']
      else then_do (plot_profile F trkpts wpts) (\<lambda>p. Inr [Shown p]))"

section \<open>Basic facts\<close>

lemma then_do_Inl [simp]: "then_do (Inl e) f = Inl e"
  by (simp add: then_do_def)

lemma then_do_Inr [simp]: "then_do (Inr v) f = f v"
  by (simp add: then_do_def)

subsection \<open>When haversine raises\<close>

lemma haversine_cases:
  "haversine F lat1 lon1 lat2 lon2 =
     (if haversine_a F lat1 lon1 lat2 lon2 < 0 \<or> fl_sub F 1 (haversine_a F lat1 lon1 lat2 lon2) < 0
      then Inl ValueError
      else Inr (haversine_value F lat1 lon1 lat2 lon2))"
  by (simp add: haversine_def haversine_value_def py_sqrt_def Let_def)


lemma haversine_Inl:
  "haversine F lat1 lon1 lat2 lon2 = Inl e \<Longrightarrow> e = ValueError"
  by (simp add: haversine_cases split: if_splits)

subsection \<open>Exact arithmetic\<close>

lemma exact_fpu_simps [simp]:
  "rnd exact_fpu x = x" "fsin exact_fpu = sin" "fcos exact_fpu = cos" "fatan2 exact_fpu = atan2"
  by (simp_all add: exact_fpu_def)

lemma exact_ops [simp]:
  "fl_add exact_fpu x y = x + y" "fl_sub exact_fpu x y = x - y" "fl_mul exact_fpu x y = x * y"
  "fl_div exact_fpu x y = x / y" "fl_square exact_fpu x = x\<^sup>2" "radians exact_fpu x = x * (pi / 180)"
  by (simp_all add: fl_add_def fl_sub_def fl_mul_def fl_div_def fl_square_def radians_def)

lemma haversine_a_exact:
  "haversine_a exact_fpu lat1 lon1 lat2 lon2 =
     (sin ((lat2 - lat1) * (pi / 180) / 2))\<^sup>2
       + cos (lat1 * (pi / 180)) * cos (lat2 * (pi / 180)) * (sin ((lon2 - lon1) * (pi / 180) / 2))\<^sup>2"
  by (simp add: haversine_a_def Let_def)

lemma half_angle_identity:
  "(sin ((q - p) / 2))\<^sup>2 + cos p * cos q = (cos ((p + q) / 2))\<^sup>2" for p q :: real
proof -
  define x y where "x = p / 2" and "y = q / 2"
  have p: "p = 2 * x" and q: "q = 2 * y" and d: "(q - p) / 2 = y - x" and s: "(p + q) / 2 = x + y"
    by (simp_all add: x_def y_def field_simps)
  show ?thesis
    unfolding d s unfolding p q sin_diff cos_add cos_double
    by (simp add: power2_eq_square algebra_simps)
qed

lemma haversine_a_convex:
  "haversine_a exact_fpu lat1 lon1 lat2 lon2 =
     (1 - (sin ((lon2 - lon1) * (pi / 180) / 2))\<^sup>2)
       * (sin ((lat2 * (pi / 180) - lat1 * (pi / 180)) / 2))\<^sup>2
     + (sin ((lon2 - lon1) * (pi / 180) / 2))\<^sup>2
       * (cos ((lat1 * (pi / 180) + lat2 * (pi / 180)) / 2))\<^sup>2"
proof -
  have r: "(lat2 - lat1) * (pi / 180) = lat2 * (pi / 180) - lat1 * (pi / 180)"
    by (simp add: field_simps)
  have cc: "cos (lat1 * (pi / 180)) * cos (lat2 * (pi / 180)) =
        (cos ((lat1 * (pi / 180) + lat2 * (pi / 180)) / 2))\<^sup>2
        - (sin ((lat2 * (pi / 180) - lat1 * (pi / 180)) / 2))\<^sup>2"
    using half_angle_identity [of "lat2 * (pi / 180)" "lat1 * (pi / 180)"] by simp
  show ?thesis
    unfolding haversine_a_exact r cc by (simp add: algebra_simps)
qed

lemma sin_sq_le_one: "(sin x)\<^sup>2 \<le> 1" for x :: real
  by (simp add: abs_square_le_1)

lemma cos_sq_le_one: "(cos x)\<^sup>2 \<le> 1" for x :: real
  by (simp add: abs_square_le_1)

lemma convex_unit:
  fixes t u v :: real
  assumes "0 \<le> t" "t \<le> 1" "0 \<le> u" "u \<le> 1" "0 \<le> v" "v \<le> 1"
  shows "0 \<le> (1 - t) * u + t * v" and "(1 - t) * u + t * v \<le> 1"
proof -
  show "0 \<le> (1 - t) * u + t * v" using assms by simp
  have "(1 - t) * u \<le> (1 - t) * 1" using assms by (intro mult_left_mono) simp_all
  moreover have "t * v \<le> t * 1" using assms by (intro mult_left_mono) simp_all
  ultimately show "(1 - t) * u + t * v \<le> 1" by simp
qed

lemma haversine_a_exact_nonneg: "0 \<le> haversine_a exact_fpu lat1 lon1 lat2 lon2"
  unfolding haversine_a_convex
  by (rule convex_unit(1)) (simp_all add: sin_sq_le_one cos_sq_le_one)

lemma haversine_a_exact_le_one: "haversine_a exact_fpu lat1 lon1 lat2 lon2 \<le> 1"
  unfolding haversine_a_convex
  by (rule convex_unit(2)) (simp_all add: sin_sq_le_one cos_sq_le_one)

lemma atan2_nonneg: "0 \<le> y \<Longrightarrow> 0 \<le> x \<Longrightarrow> 0 \<le> atan2 y x"
  by (simp add: atan2_def zero_le_arctan_iff)

lemma haversine_exact_returns:
  "haversine exact_fpu lat1 lon1 lat2 lon2 = Inr (haversine_value exact_fpu lat1 lon1 lat2 lon2)"
  using haversine_a_exact_nonneg [of lat1 lon1 lat2 lon2]
    haversine_a_exact_le_one [of lat1 lon1 lat2 lon2]
  by (simp add: haversine_cases not_less [symmetric])

lemma haversine_value_exact_nonneg: "0 \<le> haversine_value exact_fpu lat1 lon1 lat2 lon2"
  unfolding haversine_value_def
  using haversine_a_exact_nonneg [of lat1 lon1 lat2 lon2]
    haversine_a_exact_le_one [of lat1 lon1 lat2 lon2]
  by (simp add: atan2_nonneg)

subsection \<open>The distance loop\<close>

declare compute_distances_loop.simps [simp del]

lemma compute_distances_loop_done:
  "\<not> i < length trkpts \<Longrightarrow> compute_distances_loop F i trkpts dists = Inr dists"
  by (simp add: compute_distances_loop.simps [of F i trkpts dists])

lemma compute_distances_loop_step:
  assumes "i < length trkpts" "dists \<noteq> []"
  shows "compute_distances_loop F i trkpts dists =
         then_do (haversine F (fst (trkpts ! (i - 1))) (fst (snd (trkpts ! (i - 1))))
                              (fst (trkpts ! i)) (fst (snd (trkpts ! i))))
           (\<lambda>d. compute_distances_loop F (Suc i) trkpts (dists @ [fl_add F (last dists) d]))"
  using assms
  by (simp add: compute_distances_loop.simps [of F i trkpts dists] Let_def py_last_def)

lemma compute_distances_empty: "compute_distances F [] = Inr [0]"
  by (simp add: compute_distances_def compute_distances_loop_done)

lemma compute_distances_single: "compute_distances F [p] = Inr [0]"
  by (simp add: compute_distances_def compute_distances_loop_done)

lemma compute_distances_two:
  "compute_distances F [(lat1, lon1, e1), (lat2, lon2, e2)] =
     then_do (haversine F lat1 lon1 lat2 lon2) (\<lambda>d. Inr [0, fl_add F 0 d])"
  by (simp add: compute_distances_def compute_distances_loop_step compute_distances_loop_done)

text \<open>Whatever the loop returns has one more element for each remaining index.\<close>

lemma compute_distances_loop_length:
  assumes "dists \<noteq> []" "compute_distances_loop F i trkpts dists = Inr ds"
  shows "length ds = length dists + (length trkpts - i) \<and> hd ds = hd dists"
  using assms
proof (induction n \<equiv> "length trkpts - i" arbitrary: i dists)
  case 0
  then show ?case by (simp add: compute_distances_loop_done)
next
  case (Suc n)
  have lt: "i < length trkpts" using Suc.hyps(2) by simp
  let ?h = "haversine F (fst (trkpts ! (i - 1))) (fst (snd (trkpts ! (i - 1))))
                        (fst (trkpts ! i)) (fst (snd (trkpts ! i)))"
  from Suc.prems(2) obtain d where d: "?h = Inr d"
    and r: "compute_distances_loop F (Suc i) trkpts (dists @ [fl_add F (last dists) d]) = Inr ds"
    unfolding compute_distances_loop_step [OF lt Suc.prems(1)] by (cases ?h) simp_all
  have "length ds = length (dists @ [fl_add F (last dists) d]) + (length trkpts - Suc i)
        \<and> hd ds = hd (dists @ [fl_add F (last dists) d])"
    using Suc.hyps(2) r by (intro Suc.hyps(1)) simp_all
  then show ?case using lt Suc.prems(1) by simp
qed

text \<open>The loop returns when \<^verbatim>\<open>haversine\<close> returns on every remaining consecutive pair.\<close>

lemma compute_distances_loop_returns:
  assumes "dists \<noteq> []"
    and "\<forall>j. i \<le> j \<and> j < length trkpts \<longrightarrow>
           (\<exists>d. haversine F (fst (trkpts ! (j - 1))) (fst (snd (trkpts ! (j - 1))))
                             (fst (trkpts ! j)) (fst (snd (trkpts ! j))) = Inr d)"
  shows "\<exists>ds. compute_distances_loop F i trkpts dists = Inr ds"
  using assms
proof (induction n \<equiv> "length trkpts - i" arbitrary: i dists)
  case 0
  then show ?case by (simp add: compute_distances_loop_done)
next
  case (Suc n)
  have lt: "i < length trkpts" using Suc.hyps(2) by simp
  obtain d where d: "haversine F (fst (trkpts ! (i - 1))) (fst (snd (trkpts ! (i - 1))))
                                 (fst (trkpts ! i)) (fst (snd (trkpts ! i))) = Inr d"
    using Suc.prems(2) lt by blast
  have "\<exists>ds. compute_distances_loop F (Suc i) trkpts (dists @ [fl_add F (last dists) d]) = Inr ds"
    using Suc.hyps(2) Suc.prems(2) by (intro Suc.hyps(1)) auto
  then show ?case
    unfolding compute_distances_loop_step [OF lt Suc.prems(1)] d by simp
qed

lemma compute_distances_length_of_result:
  "compute_distances F trkpts = Inr ds \<Longrightarrow> length ds = max 1 (length trkpts) \<and> hd ds = 0"
  using compute_distances_loop_length [of "[0]" F 1 trkpts ds]
  by (auto simp: compute_distances_def max_def)

lemma compute_distances_returns_when:
  assumes "\<forall>i. Suc i < length trkpts \<longrightarrow>
             (\<exists>d. haversine F (fst (trkpts ! i)) (fst (snd (trkpts ! i)))
                               (fst (trkpts ! Suc i)) (fst (snd (trkpts ! Suc i))) = Inr d)"
  shows "\<exists>ds. compute_distances F trkpts = Inr ds"
  unfolding compute_distances_def
proof (rule compute_distances_loop_returns)
  show "[0 :: real] \<noteq> []" by simp
  show "\<forall>j. 1 \<le> j \<and> j < length trkpts \<longrightarrow>
           (\<exists>d. haversine F (fst (trkpts ! (j - 1))) (fst (snd (trkpts ! (j - 1))))
                             (fst (trkpts ! j)) (fst (snd (trkpts ! j))) = Inr d)"
  proof (intro allI impI)
    fix j assume j: "1 \<le> j \<and> j < length trkpts"
    then have "Suc (j - 1) < length trkpts" "Suc (j - 1) = j" by simp_all
    then show "\<exists>d. haversine F (fst (trkpts ! (j - 1))) (fst (snd (trkpts ! (j - 1))))
                             (fst (trkpts ! j)) (fst (snd (trkpts ! j))) = Inr d"
      using assms [rule_format, of "j - 1"] by simp
  qed
qed

text \<open>
  With a monotone rounding the distances that \<^verbatim>\<open>haversine\<close> returns are not negative,
  and a series that \<^verbatim>\<open>compute_distances\<close> returns is sorted and starts at 0.
\<close>

lemma sound_fpu_facts:
  assumes "sound_fpu F"
  shows "x \<le> y \<Longrightarrow> rnd F x \<le> rnd F y" and "rnd F (rnd F x) = rnd F x"
    and "rnd F (- x) = - rnd F x" and "rnd F 1 = 1" and "rnd F 0 = 0"
    and "fsin F (- x) = - fsin F x" and "fsin F 0 = 0"
    and "0 \<le> u \<Longrightarrow> 0 \<le> v \<Longrightarrow> 0 \<le> fatan2 F u v" and "fatan2 F 0 1 = 0"
proof -
  show "x \<le> y \<Longrightarrow> rnd F x \<le> rnd F y" and "rnd F (rnd F x) = rnd F x"
    and odd: "rnd F (- x) = - rnd F x" and "rnd F 1 = 1"
    and sodd: "fsin F (- x) = - fsin F x"
    and "0 \<le> u \<Longrightarrow> 0 \<le> v \<Longrightarrow> 0 \<le> fatan2 F u v" and "fatan2 F 0 1 = 0"
    using assms unfolding sound_fpu_def by blast+
  have "rnd F (- 0) = - rnd F 0" using assms unfolding sound_fpu_def by blast
  then show "rnd F 0 = 0" by simp
  have "fsin F (- 0) = - fsin F 0" using assms unfolding sound_fpu_def by blast
  then show "fsin F 0 = 0" by simp
qed






lemma sound_fpu_exact: "sound_fpu exact_fpu"
  by (simp add: sound_fpu_def atan2_nonneg atan2_def)

lemma compute_distances_exact_returns:
  "\<exists>ds. compute_distances exact_fpu trkpts = Inr ds"
  by (rule compute_distances_returns_when) (simp add: haversine_exact_returns)

text \<open>The distance from a point to itself is 0, and the distance is symmetric.\<close>

lemma haversine_same_point_exactly:
  assumes "rnd F 0 = 0" "rnd F 1 = 1" "fsin F 0 = 0" "fatan2 F 0 1 = 0"
  shows "haversine F lat lon lat lon = Inr 0"
proof -
  have a: "haversine_a F lat lon lat lon = 0"
    using assms
    by (simp add: haversine_a_def radians_def fl_mul_def fl_sub_def fl_div_def fl_square_def
        fl_add_def Let_def)
  show ?thesis
    using assms by (simp add: haversine_cases a haversine_value_def fl_sub_def fl_mul_def)
qed

lemma haversine_same_point:
  "sound_fpu F \<Longrightarrow> haversine F lat lon lat lon = Inr 0"
  by (intro haversine_same_point_exactly sound_fpu_facts)



subsection \<open>The interpolation loop\<close>

declare interpolate_loop.simps [simp del]

lemma interpolate_loop_hit:
  "i < length dists \<Longrightarrow> distance \<le> dists ! i \<Longrightarrow>
   interpolate_loop i distance dists eles = interpolate_at i distance dists eles"
  by (simp add: interpolate_loop.simps [of i distance dists eles])

lemma interpolate_loop_miss:
  "i < length dists \<Longrightarrow> \<not> distance \<le> dists ! i \<Longrightarrow>
   interpolate_loop i distance dists eles = interpolate_loop (Suc i) distance dists eles"
  by (simp add: interpolate_loop.simps [of i distance dists eles])

lemma interpolate_loop_end:
  "\<not> i < length dists \<Longrightarrow> interpolate_loop i distance dists eles = py_last eles"
  by (simp add: interpolate_loop.simps [of i distance dists eles])

lemma interpolate_loop_skip:
  assumes "k \<le> i" "i \<le> length dists" "\<forall>j. k \<le> j \<and> j < i \<longrightarrow> dists ! j < distance"
  shows "interpolate_loop k distance dists eles = interpolate_loop i distance dists eles"
  using assms
proof (induction n \<equiv> "i - k" arbitrary: k)
  case 0
  then show ?case by simp
next
  case (Suc n)
  have "k < i" using Suc.hyps(2) by simp
  then have "interpolate_loop k distance dists eles = interpolate_loop (Suc k) distance dists eles"
    using Suc.prems by (intro interpolate_loop_miss) (auto simp: not_le)
  also have "\<dots> = interpolate_loop i distance dists eles"
    using Suc.hyps(2) Suc.prems \<open>k < i\<close> by (intro Suc.hyps(1)) auto
  finally show ?case .
qed

lemma interpolate_at_aligned:
  assumes "0 < i" "i < length dists" "length eles = length dists"
  shows "interpolate_at i distance dists eles =
         Inr (if dists ! i = dists ! (i - 1) then eles ! i
              else eles ! (i - 1)
                   + (distance - dists ! (i - 1)) / (dists ! i - dists ! (i - 1))
                     * (eles ! i - eles ! (i - 1)))"
  using assms by (simp add: interpolate_at_def py_index_def py_truediv_def Let_def)

lemma interpolate_at_no_zero_division:
  "interpolate_at i distance dists eles \<noteq> Inl ZeroDivisionError"
  by (simp add: interpolate_at_def py_index_def py_truediv_def Let_def)

lemma interpolate_loop_no_zero_division:
  "interpolate_loop i distance dists eles \<noteq> Inl ZeroDivisionError"
proof (induction n \<equiv> "length dists - i" arbitrary: i)
  case 0
  then show ?case by (simp add: interpolate_loop_end py_last_def)
next
  case (Suc n)
  then have lt: "i < length dists" by simp
  show ?case
  proof (cases "distance \<le> dists ! i")
    case True
    then show ?thesis using lt by (simp add: interpolate_loop_hit interpolate_at_no_zero_division)
  next
    case False
    then show ?thesis using lt Suc.hyps(2) by (simp add: interpolate_loop_miss Suc.hyps(1))
  qed
qed

lemma interpolate_loop_returns:
  assumes "0 < i" "eles \<noteq> []" "length eles = length dists"
  shows "\<exists>v. interpolate_loop i distance dists eles = Inr v"
  using assms(1)
proof (induction n \<equiv> "length dists - i" arbitrary: i)
  case 0
  then show ?case using assms(2) by (simp add: interpolate_loop_end py_last_def)
next
  case (Suc n)
  then have lt: "i < length dists" by simp
  show ?case
  proof (cases "distance \<le> dists ! i")
    case True
    then show ?thesis
      using lt Suc.prems assms(3) by (simp add: interpolate_loop_hit interpolate_at_aligned)
  next
    case False
    then show ?thesis using lt Suc.hyps(2) by (simp add: interpolate_loop_miss Suc.hyps(1))
  qed
qed

lemma interpolate_elevation_returns:
  "dists \<noteq> [] \<Longrightarrow> length eles = length dists \<Longrightarrow>
   \<exists>v. interpolate_elevation distance dists eles = Inr v"
  unfolding interpolate_elevation_def by (rule interpolate_loop_returns) auto

lemma interpolate_elevation_first_hit:
  assumes "0 < i" "i < length dists" "length eles = length dists"
    and "\<forall>j. 0 < j \<and> j < i \<longrightarrow> dists ! j < distance" "distance \<le> dists ! i"
  shows "interpolate_elevation distance dists eles =
         Inr (if dists ! i = dists ! (i - 1) then eles ! i
              else eles ! (i - 1)
                   + (distance - dists ! (i - 1)) / (dists ! i - dists ! (i - 1))
                     * (eles ! i - eles ! (i - 1)))"
proof -
  have "interpolate_loop 1 distance dists eles = interpolate_loop i distance dists eles"
    using assms by (intro interpolate_loop_skip) auto
  then show ?thesis
    using assms by (simp add: interpolate_elevation_def interpolate_loop_hit interpolate_at_aligned)
qed

lemma interpolate_elevation_past_end:
  assumes "\<forall>j. 0 < j \<and> j < length dists \<longrightarrow> dists ! j < distance"
  shows "interpolate_elevation distance dists eles = py_last eles"
proof (cases "dists = []")
  case True
  then show ?thesis by (simp add: interpolate_elevation_def interpolate_loop_end)
next
  case False
  have "interpolate_loop 1 distance dists eles = interpolate_loop (length dists) distance dists eles"
    using assms False by (intro interpolate_loop_skip) (auto simp: Suc_le_eq)
  then show ?thesis by (simp add: interpolate_elevation_def interpolate_loop_end)
qed

subsection \<open>Segments\<close>

lemma then_do_no_zero_division:
  assumes "m \<noteq> Inl ZeroDivisionError" "\<And>v. f v \<noteq> Inl ZeroDivisionError"
  shows "then_do m f \<noteq> Inl ZeroDivisionError"
  using assms by (cases m) simp_all

lemma interpolate_elevation_no_zero_division:
  "interpolate_elevation distance dists eles \<noteq> Inl ZeroDivisionError"
  by (simp add: interpolate_elevation_def interpolate_loop_no_zero_division)

lemma segment_slope_value:
  "segment_slope start_e end_e seg_dist =
     Inr (if seg_dist \<noteq> 0 then (end_e - start_e) / seg_dist else 0)"
  by (simp add: segment_slope_def py_truediv_def)

lemma segments_of_no_zero_division:
  "segments_of bs dists eles \<noteq> Inl ZeroDivisionError"
proof (induction bs dists eles rule: segments_of.induct)
  case (1 start_d end_d bs dists eles)
  show ?case
    unfolding segments_of.simps
    by (intro then_do_no_zero_division interpolate_elevation_no_zero_division "1.IH")
       (simp_all add: segment_slope_value)
qed simp_all

lemma segments_of_returns:
  assumes "dists \<noteq> []" "length eles = length dists"
  shows "\<exists>segs. segments_of bs dists eles = Inr segs
            \<and> map fst segs = butlast bs \<and> map (\<lambda>s. fst (snd s)) segs = tl bs"
proof (induction bs rule: induct_list012)
  case (3 start_d end_d bs)
  obtain start_e where s: "interpolate_elevation start_d dists eles = Inr start_e"
    using interpolate_elevation_returns [OF assms] by blast
  obtain end_e where e: "interpolate_elevation end_d dists eles = Inr end_e"
    using interpolate_elevation_returns [OF assms] by blast
  obtain segs where segs: "segments_of (end_d # bs) dists eles = Inr segs"
      "map fst segs = butlast (end_d # bs)" "map (\<lambda>s. fst (snd s)) segs = tl (end_d # bs)"
    using "3.IH"(2) by blast
  show ?case
    using s e segs by (simp add: segment_slope_value)
qed simp_all

lemma py_int_of_int [simp]: "py_int (of_int k) = k"
  by (simp add: py_int_def)

lemma py_int_100 [simp]: "py_int 100 = 100"
  using py_int_of_int [of 100] by simp

lemma py_range_default:
  assumes "0 \<le> k"
  shows "py_range 0 (k * 100 + 100 + 1) 100 = Inr (map (\<lambda>i. int i * 100) [0..<nat k + 2])"
proof -
  have "range_len 0 (k * 100 + 100 + 1) 100 = nat k + 2"
    using assms by (simp add: range_len_def nat_add_distrib)
  then show ?thesis by (simp add: py_range_def del: upt_Suc)
qed

lemma boundaries_of_default:
  assumes "0 \<le> total_d"
  shows "boundaries_of total_d 100 = Inr (map (\<lambda>i. real i * 100) [0..<nat \<lfloor>total_d / 100\<rfloor> + 2])"
proof -
  define k where "k = \<lfloor>total_d / 100\<rfloor>"
  define bs where "bs = map (\<lambda>i. real i * 100) [0..<nat k + 2]"
  have k0: "0 \<le> k" using assms by (simp add: k_def)
  have q: "py_floordiv total_d 100 = Inr (of_int k)"
    by (simp add: py_floordiv_def k_def)
  have r: "py_range 0 (py_int (of_int k) * py_int 100 + py_int 100 + 1) (py_int 100)
           = Inr (map (\<lambda>i. int i * 100) [0..<nat k + 2])"
    using py_range_default [OF k0] by simp
  have m: "map real_of_int (map (\<lambda>i. int i * 100) [0..<nat k + 2]) = bs"
    by (simp add: bs_def del: upt_Suc)
  have "total_d / 100 < real_of_int k + 1"
    unfolding k_def by linarith
  then have lt: "total_d < (real_of_int k + 1) * 100"
    by (simp add: field_simps)
  have "last bs = real (nat k + 1) * 100"
    by (simp add: bs_def)
  then have lst: "last bs = (real_of_int k + 1) * 100"
    using k0 by simp
  have ne: "bs \<noteq> []" by (simp add: bs_def)
  have l: "py_last bs = Inr ((real_of_int k + 1) * 100)"
    using ne lst by (simp add: py_last_def)
  have "boundaries_of total_d 100 = Inr bs"
    unfolding boundaries_of_def q then_do_Inr r Let_def m l using lt by simp
  then show ?thesis by (simp add: bs_def k_def)
qed

lemma boundaries_of_no_zero_division:
  "segment \<noteq> 0 \<Longrightarrow> boundaries_of total_d segment \<noteq> Inl ZeroDivisionError"
  unfolding boundaries_of_def
  by (intro then_do_no_zero_division) (simp_all add: py_floordiv_def py_range_def py_last_def Let_def)

lemma segment_slopes_no_zero_division:
  "segment \<noteq> 0 \<Longrightarrow> segment_slopes dists eles segment \<noteq> Inl ZeroDivisionError"
  unfolding segment_slopes_def
  by (intro then_do_no_zero_division boundaries_of_no_zero_division segments_of_no_zero_division)
     (simp_all add: py_last_def)

lemma segment_slopes_default:
  assumes "dists \<noteq> []" "length eles = length dists" "0 \<le> last dists"
  shows "\<exists>segs. segment_slopes dists eles 100 = Inr segs
            \<and> map fst segs = map (\<lambda>i. real i * 100) [0..<nat \<lfloor>last dists / 100\<rfloor> + 1]
            \<and> map (\<lambda>s. fst (snd s)) segs = map (\<lambda>i. real (Suc i) * 100) [0..<nat \<lfloor>last dists / 100\<rfloor> + 1]"
proof -
  define n where "n = nat \<lfloor>last dists / 100\<rfloor>"
  obtain segs where segs: "segments_of (map (\<lambda>i. real i * 100) [0..<n + 2]) dists eles = Inr segs"
      "map fst segs = butlast (map (\<lambda>i. real i * 100) [0..<n + 2])"
      "map (\<lambda>s. fst (snd s)) segs = tl (map (\<lambda>i. real i * 100) [0..<n + 2])"
    using segments_of_returns [OF assms(1,2)] by blast
  have "butlast [0..<n + 2] = [0..<n + 1]"
    by (simp add: butlast_append)
  then have b: "butlast (map (\<lambda>i. real i * 100) [0..<n + 2]) = map (\<lambda>i. real i * 100) [0..<n + 1]"
    by (simp only: map_butlast [symmetric])
  have tu: "tl [0..<n + 2] = map Suc [0..<n + 1]"
    by (simp add: map_Suc_upt del: upt_Suc)
  have "tl (map (\<lambda>i. real i * 100) [0..<n + 2]) = map (\<lambda>i. real i * 100) (tl [0..<n + 2])"
    by (simp only: map_tl)
  also have "\<dots> = map (\<lambda>i. real (Suc i) * 100) [0..<n + 1]"
    unfolding tu by (simp add: o_def del: upt_Suc)
  finally have t: "tl (map (\<lambda>i. real i * 100) [0..<n + 2]) = map (\<lambda>i. real (Suc i) * 100) [0..<n + 1]" .
  have eq: "segment_slopes dists eles 100 =
            segments_of (map (\<lambda>i. real i * 100) [0..<n + 2]) dists eles"
    using assms(1)
    by (simp add: segment_slopes_def py_last_def boundaries_of_default [OF assms(3)] n_def
        del: upt_Suc)
  show ?thesis
    unfolding n_def [symmetric] eq using segs(1) segs(2) [unfolded b] segs(3) [unfolded t]
    by blast
qed

text \<open>
  What \<^verbatim>\<open>segment_slopes\<close> returns with the default segment length on a distance series
  that ends at \<open>total \<ge> 0\<close>: the \<open>\<lfloor>total / 100\<rfloor> + 1\<close> segments \<open>[100 i, 100 (i + 1)]\<close>.
\<close>

lemma segment_slopes_default_shape:
  assumes "dists \<noteq> []" "length eles = length dists" "0 \<le> last dists"
  shows "\<exists>segs. segment_slopes dists eles 100 = Inr segs
            \<and> length segs = nat \<lfloor>last dists / 100\<rfloor> + 1
            \<and> (\<forall>i<length segs. fst (segs ! i) = real i * 100
                                  \<and> fst (snd (segs ! i)) = real (Suc i) * 100)"
proof -
  define n where "n = nat \<lfloor>last dists / 100\<rfloor>"
  obtain segs where segs: "segment_slopes dists eles 100 = Inr segs"
      "map fst segs = map (\<lambda>i. real i * 100) [0..<n + 1]"
      "map (\<lambda>s. fst (snd s)) segs = map (\<lambda>i. real (Suc i) * 100) [0..<n + 1]"
    using segment_slopes_default [OF assms] unfolding n_def by blast
  have len: "length segs = n + 1"
    using arg_cong [OF segs(2), of length] by simp
  have "fst (segs ! i) = real i * 100 \<and> fst (snd (segs ! i)) = real (Suc i) * 100"
    if "i < length segs" for i
  proof -
    have "map fst segs ! i = real i * 100"
      unfolding segs(2) using that len by (simp del: upt_Suc)
    moreover have "map (\<lambda>s. fst (snd s)) segs ! i = real (Suc i) * 100"
      unfolding segs(3) using that len by (simp del: upt_Suc)
    ultimately show ?thesis using that by simp
  qed
  then show ?thesis using segs(1) len unfolding n_def by blast
qed

subsection \<open>The nearest-point scan\<close>





text \<open>
  A scan stops with the error of the first \<^verbatim>\<open>haversine\<close> call that raises.
\<close>

lemma nearest_scan_raises:
  "haversine F lat lon tlat tlon = Inl e \<Longrightarrow>
   nearest_scan F lat lon ((tlat, tlon, tele) # ts) i (min_idx, min_dist) = Inl e"
  by simp


text \<open>One waypoint on a track of one point: the only \<^verbatim>\<open>haversine\<close> call decides.\<close>

lemma waypoint_positions_one_point:
  "waypoint_positions F [(lat, lon, name)] [(tlat, tlon, tele)] dists =
     then_do (haversine F lat lon tlat tlon) (\<lambda>d. then_do (py_index dists 0) (\<lambda>pos. Inr [(pos, name)]))"
  by (cases "haversine F lat lon tlat tlon") simp_all

subsection \<open>The profile of an empty track\<close>

text \<open>
  Called on an empty track, \<^verbatim>\<open>plot_profile\<close> raises IndexError: the distance series is
  \<^verbatim>\<open>[0.0]\<close>, the elevation series is empty, and the first interpolation reads \<^verbatim>\<open>eles[-1]\<close>.
  The test \<^verbatim>\<open>if not trkpts\<close> in \<^verbatim>\<open>main\<close> is what keeps the program from it.
\<close>

lemma plot_profile_empty_track: "plot_profile F [] wpts = Inl IndexError"
proof -
  have b: "boundaries_of 0 100 = Inr [0, 100]"
    using boundaries_of_default [of 0] by (simp add: numeral_2_eq_2)
  have i: "interpolate_elevation 0 [0] [] = Inl IndexError"
    by (simp add: interpolate_elevation_def interpolate_loop_end py_last_def)
  show ?thesis
    by (simp add: plot_profile_def compute_distances_empty segment_slopes_def py_last_def b i)
qed

subsection \<open>Rounding to a double\<close>

lemma round_double_zero [simp]: "round_double 0 = 0"
  by (simp add: round_double_def)

lemma round_double_binade:
  assumes "2 powr of_int e \<le> \<bar>x\<bar>" "\<bar>x\<bar> < 2 powr (of_int e + 1)"
  shows "round_double x = of_int (round_even (x / 2 powr (of_int e - 52))) * 2 powr (of_int e - 52)"
proof -
  have pos: "0 < \<bar>x\<bar>"
    using assms(1) by (rule less_le_trans [rotated]) simp
  have "of_int e \<le> log 2 \<bar>x\<bar>"
    using assms(1) pos by (simp add: le_log_iff)
  moreover have "log 2 \<bar>x\<bar> < of_int e + 1"
    using assms(2) pos by (simp add: log_less_iff)
  ultimately have "\<lfloor>log 2 \<bar>x\<bar>\<rfloor> = e"
    by (simp add: floor_eq_iff)
  then show ?thesis
    using pos by (simp add: round_double_def)
qed

lemma round_double_one [simp]: "round_double 1 = 1"
  using round_double_binade [of 0 1] by (simp add: round_even_def powr_minus)

text \<open>
  The doubles nearest to 0.03, 0.06 and 0.15 are below these numbers, and so are their
  exact products with 100; the rounded products are 3, 6 and 15.
\<close>

lemma pct_of_double_003: "round_double (1080863910568919 / 2 ^ 55 * 100) = 3"
  using round_double_binade [of 1 "1080863910568919 / 2 ^ 55 * 100"]
  by (simp add: round_even_def powr_minus)

lemma pct_of_double_006: "round_double (1080863910568919 / 2 ^ 54 * 100) = 6"
  using round_double_binade [of 2 "1080863910568919 / 2 ^ 54 * 100"]
  by (simp add: round_even_def powr_minus)

lemma pct_of_double_015: "round_double (5404319552844595 / 2 ^ 55 * 100) = 15"
  using round_double_binade [of 3 "5404319552844595 / 2 ^ 55 * 100"]
  by (simp add: round_even_def powr_minus)

lemma overflow_small: "overflow 3 = Finite 3" "overflow 6 = Finite 6" "overflow 15 = Finite 15"
  by (simp_all add: overflow_def max_double_def)

lemma double_fpu_simps [simp]:
  "rnd double_fpu = round_double" "fsin double_fpu x = round_double (sin x)"
  "fcos double_fpu x = round_double (cos x)" "fatan2 double_fpu y x = round_double (atan2 y x)"
  by (simp_all add: double_fpu_def)

lemma haversine_same_point_double: "haversine double_fpu lat lon lat lon = Inr 0"
  by (rule haversine_same_point_exactly) (simp_all add: atan2_def)

text \<open>
  Rounding to a double is monotone, odd and idempotent, so the doubles with correctly
  rounded functions are a sound arithmetic.
\<close>

lemma round_even_of_int [simp]: "round_even (of_int n) = n"
  by (simp add: round_even_def)

lemma round_even_bounds: "\<lfloor>y\<rfloor> \<le> round_even y \<and> round_even y \<le> \<lfloor>y\<rfloor> + 1"
  by (simp add: round_even_def)

lemma round_even_mono:
  assumes "y \<le> z"
  shows "round_even y \<le> round_even z"
proof (cases "\<lfloor>y\<rfloor> = \<lfloor>z\<rfloor>")
  case True
  have "y - of_int \<lfloor>y\<rfloor> \<le> z - of_int \<lfloor>z\<rfloor>"
    using assms True by simp
  then show ?thesis
    using True by (auto simp: round_even_def)
next
  case False
  have "\<lfloor>y\<rfloor> \<le> \<lfloor>z\<rfloor>" using assms by (rule floor_mono)
  then have "\<lfloor>y\<rfloor> + 1 \<le> \<lfloor>z\<rfloor>" using False by simp
  then show ?thesis
    using round_even_bounds [of y] round_even_bounds [of z] by linarith
qed

lemma round_even_minus: "round_even (- y) = - round_even y"
proof (cases "y = of_int \<lfloor>y\<rfloor>")
  case True
  then obtain n where "y = of_int n" ..
  then have "- y = of_int (- n)" by simp
  then show ?thesis using \<open>y = of_int n\<close> by (simp only: round_even_of_int)
next
  case False
  have lt: "of_int \<lfloor>y\<rfloor> < y"
    using False of_int_floor_le [of y] by linarith
  have ub: "y < of_int \<lfloor>y\<rfloor> + 1"
    by linarith
  have f: "\<lfloor>- y\<rfloor> = - \<lfloor>y\<rfloor> - 1"
  proof (rule floor_unique)
    show "of_int (- \<lfloor>y\<rfloor> - 1) \<le> - y" by simp linarith
    show "- y < of_int (- \<lfloor>y\<rfloor> - 1) + 1" using lt by simp
  qed
  show ?thesis
    unfolding round_even_def f using lt by (auto simp: algebra_simps)
qed

lemma round_double_minus: "round_double (- x) = - round_double x"
  by (simp add: round_double_def round_even_minus)

lemma binade_of:
  assumes "0 < x"
  shows "2 powr of_int \<lfloor>log 2 x\<rfloor> \<le> x \<and> x < 2 powr (of_int \<lfloor>log 2 x\<rfloor> + 1)"
proof
  have "of_int \<lfloor>log 2 x\<rfloor> \<le> log 2 x" by simp
  then show "2 powr of_int \<lfloor>log 2 x\<rfloor> \<le> x"
    using assms by (simp add: powr_le_iff)
  have "log 2 x < of_int \<lfloor>log 2 x\<rfloor> + 1" by linarith
  then show "x < 2 powr (of_int \<lfloor>log 2 x\<rfloor> + 1)"
    using assms by (simp add: less_powr_iff)
qed

text \<open>In its binade a positive number is rounded to a double of the closed binade.\<close>

lemma round_double_in_binade:
  assumes "2 powr of_int e \<le> x" "x < 2 powr (of_int e + 1)"
  shows "2 powr of_int e \<le> round_double x \<and> round_double x \<le> 2 powr (of_int e + 1)"
    and "2 ^ 52 \<le> round_even (x / 2 powr (of_int e - 52))
         \<and> round_even (x / 2 powr (of_int e - 52)) \<le> 2 ^ 53"
proof -
  let ?s = "2 powr (of_int e - 52) :: real"
  have s: "0 < ?s" by simp
  have pos: "0 < x" using assms(1) by (rule less_le_trans [rotated]) simp
  have lo: "2 powr of_int e = 2 ^ 52 * ?s"
    by (simp add: powr_diff)
  have hi: "2 powr (of_int e + 1) = 2 ^ 53 * ?s"
    by (simp add: powr_diff powr_add)
  have "2 ^ 52 \<le> x / ?s"
    using assms(1) s unfolding lo by (simp add: pos_le_divide_eq)
  then have "round_even (of_int (2 ^ 52)) \<le> round_even (x / ?s)"
    by (intro round_even_mono) simp
  then have m1: "2 ^ 52 \<le> round_even (x / ?s)"
    by (simp only: round_even_of_int)
  have "x / ?s \<le> 2 ^ 53"
    using assms(2) s unfolding hi by (simp add: pos_divide_le_eq)
  then have "round_even (x / ?s) \<le> round_even (of_int (2 ^ 53))"
    by (intro round_even_mono) simp
  then have m2: "round_even (x / ?s) \<le> 2 ^ 53"
    by (simp only: round_even_of_int)
  show "2 ^ 52 \<le> round_even (x / ?s) \<and> round_even (x / ?s) \<le> 2 ^ 53"
    using m1 m2 by simp
  have rd: "round_double x = of_int (round_even (x / ?s)) * ?s"
    using round_double_binade [of e x] assms pos by simp
  have "(2 ^ 52 :: real) \<le> of_int (round_even (x / ?s))"
    using m1 by (metis of_int_le_iff of_int_numeral of_int_power)
  then have a: "2 ^ 52 * ?s \<le> of_int (round_even (x / ?s)) * ?s"
    using s by (simp only: mult_le_cancel_right_pos)
  have "of_int (round_even (x / ?s)) \<le> (2 ^ 53 :: real)"
    using m2 by (metis of_int_le_iff of_int_numeral of_int_power)
  then have b: "of_int (round_even (x / ?s)) * ?s \<le> 2 ^ 53 * ?s"
    using s by (simp only: mult_le_cancel_right_pos)
  show "2 powr of_int e \<le> round_double x \<and> round_double x \<le> 2 powr (of_int e + 1)"
    unfolding rd lo hi using a b by simp
qed

lemma round_double_pos_mono:
  assumes "0 < x" "x \<le> y"
  shows "round_double x \<le> round_double y"
proof -
  let ?e = "\<lfloor>log 2 x\<rfloor>" 
  let ?f = "\<lfloor>log 2 y\<rfloor>"
  have y: "0 < y" using assms by simp
  have bx: "2 powr of_int ?e \<le> x" "x < 2 powr (of_int ?e + 1)"
    using binade_of [OF assms(1)] by simp_all
  have "by": "2 powr of_int ?f \<le> y" "y < 2 powr (of_int ?f + 1)"
    using binade_of [OF y] by simp_all
  have "log 2 x \<le> log 2 y"
    using assms by simp
  then have ef: "?e \<le> ?f" by (rule floor_mono)
  show ?thesis
  proof (cases "?e = ?f")
    case True
    have "x / 2 powr (of_int ?e - 52) \<le> y / 2 powr (of_int ?e - 52)"
      using assms(2) by (simp add: divide_right_mono)
    then have "round_even (x / 2 powr (of_int ?e - 52)) \<le> round_even (y / 2 powr (of_int ?e - 52))"
      by (rule round_even_mono)
    then have "real_of_int (round_even (x / 2 powr (of_int ?e - 52))) * 2 powr (of_int ?e - 52)
            \<le> real_of_int (round_even (y / 2 powr (of_int ?e - 52))) * 2 powr (of_int ?e - 52)"
      by (intro mult_right_mono) simp_all
    then show ?thesis
      using round_double_binade [of ?e x] round_double_binade [of ?f y] bx "by" assms y True
      by simp
  next
    case False
    then have "?e + 1 \<le> ?f" using ef by simp
    then have "(of_int ?e + 1 :: real) \<le> of_int ?f" by linarith
    then have "(2::real) powr (of_int ?e + 1) \<le> 2 powr of_int ?f"
      by simp
    then show ?thesis
      using round_double_in_binade(1) [OF bx] round_double_in_binade(1) [OF "by"] by linarith
  qed
qed

lemma round_double_nonneg: "0 \<le> x \<Longrightarrow> 0 \<le> round_double x"
proof (cases "x = 0")
  case True
  then show ?thesis by simp
next
  case False
  assume "0 \<le> x"
  then have x: "0 < x" using False by simp
  have "0 \<le> 2 powr real_of_int \<lfloor>log 2 x\<rfloor>" by simp
  then show ?thesis
    using round_double_in_binade(1) [of "\<lfloor>log 2 x\<rfloor>" x] binade_of [OF x] by linarith
qed

lemma round_double_mono:
  assumes "x \<le> y"
  shows "round_double x \<le> round_double y"
proof -
  consider "0 < x" | "x \<le> 0" "0 \<le> y" | "y < 0" by linarith
  then show ?thesis
  proof cases
    case 1
    then show ?thesis using assms by (rule round_double_pos_mono)
  next
    case 2
    have "0 \<le> round_double (- x)" using 2(1) by (intro round_double_nonneg) simp
    then have "round_double x \<le> 0" by (simp add: round_double_minus)
    moreover have "0 \<le> round_double y" using 2(2) by (rule round_double_nonneg)
    ultimately show ?thesis by simp
  next
    case 3
    then have "0 < - y" "- y \<le> - x" using assms by simp_all
    then have "round_double (- y) \<le> round_double (- x)" by (rule round_double_pos_mono)
    then show ?thesis by (simp add: round_double_minus)
  qed
qed






lemma round_double_half [simp]: "round_double (1 / 2) = 1 / 2"
  using round_double_binade [of "- 1" "1 / 2"] by (simp add: round_even_def powr_minus)

lemma round_double_4 [simp]: "round_double 4 = 4"
  using round_double_binade [of 2 4] by (simp add: round_even_def powr_minus)

lemma round_double_32 [simp]: "round_double 32 = 32"
  using round_double_binade [of 5 32] by (simp add: round_even_def powr_minus)

lemma round_double_32nd [simp]: "round_double (1 / 32) = 1 / 32"
  using round_double_binade [of "- 5" "1 / 32"] by (simp add: round_even_def powr_minus)

lemma abs_round_double_le:
  assumes "\<bar>x\<bar> \<le> c" "round_double c = c"
  shows "\<bar>round_double x\<bar> \<le> c"
proof -
  have "round_double x \<le> round_double c"
    using assms(1) by (intro round_double_mono) simp
  moreover have "round_double (- c) \<le> round_double x"
    using assms(1) by (intro round_double_mono) simp
  ultimately show ?thesis
    by (simp add: round_double_minus assms(2) abs_le_iff)
qed

text \<open>
  In the doubles \<^verbatim>\<open>haversine\<close> returns for points within 16 degrees of the equator whose
  longitudes differ by at most 32 degrees: there the rounded \<^verbatim>\<open>a\<close> lies in \<open>[0, 1]\<close>.
\<close>

lemma radians_double_bound:
  assumes "\<bar>x\<bar> \<le> 32"
  shows "\<bar>radians double_fpu x\<bar> \<le> 1"
proof -
  define k where "k = round_double (round_double pi / 180)"
  have "0 \<le> round_double pi"
    by (rule round_double_nonneg) simp
  then have k0: "0 \<le> k"
    unfolding k_def by (intro round_double_nonneg) simp
  have "round_double pi \<le> round_double 4"
    using pi_less_4 by (intro round_double_mono) simp
  then have "round_double pi / 180 \<le> 1 / 32" by simp
  then have "k \<le> round_double (1 / 32)"
    unfolding k_def by (rule round_double_mono)
  then have k1: "k \<le> 1 / 32" by simp
  have "\<bar>x * k\<bar> = \<bar>x\<bar> * k" using k0 by (simp add: abs_mult)
  also have "\<dots> \<le> 32 * (1 / 32)"
    using assms k0 k1 by (intro mult_mono) simp_all
  finally have "\<bar>x * k\<bar> \<le> 1" by simp
  then have "\<bar>round_double (x * k)\<bar> \<le> 1"
    by (rule abs_round_double_le) simp
  then show ?thesis
    by (simp add: radians_def fl_mul_def fl_div_def k_def)
qed

lemma half_sine_square_double_bound:
  assumes "\<bar>u\<bar> \<le> 1"
  shows "0 \<le> fl_square double_fpu (fsin double_fpu (fl_div double_fpu u 2))
         \<and> fl_square double_fpu (fsin double_fpu (fl_div double_fpu u 2)) \<le> 1 / 2"
proof -
  define v where "v = round_double (u / 2)"
  define w where "w = round_double (sin v)"
  have "\<bar>u / 2\<bar> \<le> 1 / 2" using assms by simp
  then have v: "\<bar>v\<bar> \<le> 1 / 2"
    unfolding v_def by (rule abs_round_double_le) simp
  have "\<bar>sin v\<bar> \<le> \<bar>v\<bar>" by (rule abs_sin_x_le_abs_x)
  then have "\<bar>sin v\<bar> \<le> 1 / 2" using v by simp
  then have w: "\<bar>w\<bar> \<le> 1 / 2"
    unfolding w_def by (rule abs_round_double_le) simp
  have "w\<^sup>2 = \<bar>w\<bar> * \<bar>w\<bar>" by (simp add: power2_eq_square)
  also have "\<dots> \<le> (1 / 2) * (1 / 2)"
    using w by (intro mult_mono) simp_all
  finally have "w\<^sup>2 \<le> 1 / 2" by simp
  then have "round_double (w\<^sup>2) \<le> round_double (1 / 2)"
    by (rule round_double_mono)
  moreover have "0 \<le> round_double (w\<^sup>2)"
    by (rule round_double_nonneg) simp
  ultimately show ?thesis
    by (simp add: fl_square_def fl_div_def v_def w_def)
qed

lemma cosine_double_bound:
  assumes "\<bar>phi\<bar> \<le> 1"
  shows "0 \<le> fcos double_fpu phi \<and> fcos double_fpu phi \<le> 1"
proof -
  have "1 \<le> pi / 2" using pi_ge_two by simp
  then have "- (pi / 2) \<le> phi" "phi \<le> pi / 2" using assms by simp_all
  then have "0 \<le> cos phi" by (rule cos_ge_zero)
  then have "0 \<le> round_double (cos phi)" by (rule round_double_nonneg)
  moreover have "round_double (cos phi) \<le> round_double 1"
    by (rule round_double_mono) simp
  ultimately show ?thesis by simp
qed

lemma haversine_double_returns:
  assumes "\<bar>lat1\<bar> \<le> 16" "\<bar>lat2\<bar> \<le> 16" "\<bar>lon2 - lon1\<bar> \<le> 32"
  shows "\<exists>d. haversine double_fpu lat1 lon1 lat2 lon2 = Inr d"
proof -
  let ?F = double_fpu
  define s1 where "s1 = fl_square ?F (fsin ?F (fl_div ?F (radians ?F (fl_sub ?F lat2 lat1)) 2))"
  define s2 where "s2 = fl_square ?F (fsin ?F (fl_div ?F (radians ?F (fl_sub ?F lon2 lon1)) 2))"
  define c1 where "c1 = fcos ?F (radians ?F lat1)"
  define c2 where "c2 = fcos ?F (radians ?F lat2)"
  have a: "haversine_a ?F lat1 lon1 lat2 lon2 = fl_add ?F s1 (fl_mul ?F (fl_mul ?F c1 c2) s2)"
    by (simp add: haversine_a_def Let_def s1_def s2_def c1_def c2_def)
  have "\<bar>lat2 - lat1\<bar> \<le> 32" using assms(1,2) by simp
  then have "\<bar>fl_sub ?F lat2 lat1\<bar> \<le> 32"
    unfolding fl_sub_def double_fpu_simps by (rule abs_round_double_le) simp
  then have s1: "0 \<le> s1" "s1 \<le> 1 / 2"
    unfolding s1_def using half_sine_square_double_bound [OF radians_double_bound] by simp_all
  have "\<bar>fl_sub ?F lon2 lon1\<bar> \<le> 32"
    unfolding fl_sub_def double_fpu_simps using assms(3) by (rule abs_round_double_le) simp
  then have s2: "0 \<le> s2" "s2 \<le> 1 / 2"
    unfolding s2_def using half_sine_square_double_bound [OF radians_double_bound] by simp_all
  have c1: "0 \<le> c1" "c1 \<le> 1"
    unfolding c1_def using cosine_double_bound [OF radians_double_bound, of lat1] assms(1)
    by simp_all
  have c2: "0 \<le> c2" "c2 \<le> 1"
    unfolding c2_def using cosine_double_bound [OF radians_double_bound, of lat2] assms(2)
    by simp_all
  define cc where "cc = fl_mul ?F c1 c2"
  have "c1 * c2 \<le> 1 * 1" using c1 c2 by (intro mult_mono) simp_all
  then have "round_double (c1 * c2) \<le> round_double 1"
    by (intro round_double_mono) simp
  moreover have "0 \<le> round_double (c1 * c2)"
    using c1 c2 by (intro round_double_nonneg) simp
  ultimately have cc: "0 \<le> cc" "cc \<le> 1"
    by (simp_all add: cc_def fl_mul_def)
  define t where "t = fl_mul ?F cc s2"
  have "cc * s2 \<le> 1 * (1 / 2)" using cc s2 by (intro mult_mono) simp_all
  then have "round_double (cc * s2) \<le> round_double (1 / 2)"
    by (intro round_double_mono) simp
  moreover have "0 \<le> round_double (cc * s2)"
    using cc s2 by (intro round_double_nonneg) simp
  ultimately have t: "0 \<le> t" "t \<le> 1 / 2"
    by (simp_all add: t_def fl_mul_def)
  have "round_double (s1 + t) \<le> round_double 1"
    using s1 t by (intro round_double_mono) simp
  moreover have "0 \<le> round_double (s1 + t)"
    using s1 t by (intro round_double_nonneg) simp
  ultimately have a01: "0 \<le> haversine_a ?F lat1 lon1 lat2 lon2"
    "haversine_a ?F lat1 lon1 lat2 lon2 \<le> 1"
    by (simp_all add: a cc_def [symmetric] t_def [symmetric] fl_add_def)
  have "0 \<le> round_double (1 - haversine_a ?F lat1 lon1 lat2 lon2)"
    using a01 by (intro round_double_nonneg) simp
  then have "0 \<le> fl_sub ?F 1 (haversine_a ?F lat1 lon1 lat2 lon2)"
    by (simp add: fl_sub_def)
  then show ?thesis
    using a01 by (simp add: haversine_cases not_less)
qed

lemma compute_distances_double_returns:
  assumes "\<forall>p \<in> set trkpts. \<bar>fst p\<bar> \<le> 16"
    and "\<forall>i. Suc i < length trkpts \<longrightarrow> \<bar>fst (snd (trkpts ! Suc i)) - fst (snd (trkpts ! i))\<bar> \<le> 32"
  shows "\<exists>ds. compute_distances double_fpu trkpts = Inr ds"
proof (rule compute_distances_returns_when, intro allI impI)
  fix i assume i: "Suc i < length trkpts"
  then have "trkpts ! i \<in> set trkpts" "trkpts ! Suc i \<in> set trkpts"
    by simp_all
  then have "\<bar>fst (trkpts ! i)\<bar> \<le> 16" "\<bar>fst (trkpts ! Suc i)\<bar> \<le> 16"
    using assms(1) by blast+
  moreover have "\<bar>fst (snd (trkpts ! Suc i)) - fst (snd (trkpts ! i))\<bar> \<le> 32"
    using assms(2) i by blast
  ultimately show "\<exists>d. haversine double_fpu (fst (trkpts ! i)) (fst (snd (trkpts ! i)))
                    (fst (trkpts ! Suc i)) (fst (snd (trkpts ! Suc i))) = Inr d"
    by (rule haversine_double_returns)
qed

lemma compute_distances_double_example:
  "\<exists>ds. compute_distances double_fpu [(0, 0, 1), (0, 1, 2), (1, 1, 3)] = Inr ds"
  by (rule compute_distances_double_returns) (simp_all add: nth_Cons split: nat.split)




section \<open>The claims\<close>

subsection \<open>Distance series\<close>



text \<open>
  Claim C7, as stated: for every sequence of track points, the empty one included, the
  distance series has the length of the input. It fails on the empty sequence: the list
  \<^verbatim>\<open>dists\<close> starts as \<^verbatim>\<open>[0.0]\<close> and the loop does not run, so one distance is returned
  for no point.
\<close>

theorem compute_distances_length_empty_counterexample:
  "compute_distances double_fpu [] = Inr [0] \<and> compute_distances exact_fpu [] = Inr [0]
   \<and> length [0 :: real] \<noteq> length ([] :: trkpt list)"
  by (simp add: compute_distances_empty)

text \<open>
  Claim C7, amended: a series that \<^verbatim>\<open>compute_distances\<close> returns has the length of the input
  when the input is non-empty, and is the one-element series \<^verbatim>\<open>[0.0]\<close> when it is empty
  (length \<open>max 1 (length trkpts)\<close>); the empty track always gets its series, and every track
  does on which \<^verbatim>\<open>haversine\<close> returns for each pair of consecutive points.
\<close>

theorem compute_distances_length:
  "(compute_distances F trkpts = Inr ds \<longrightarrow> length ds = max 1 (length trkpts))
   \<and> compute_distances F [] = Inr [0]
   \<and> ((\<forall>i. Suc i < length trkpts \<longrightarrow>
          (\<exists>d. haversine F (fst (trkpts ! i)) (fst (snd (trkpts ! i)))
                            (fst (trkpts ! Suc i)) (fst (snd (trkpts ! Suc i))) = Inr d))
        \<longrightarrow> (\<exists>r. compute_distances F trkpts = Inr r \<and> length r = max 1 (length trkpts)))"
proof (intro conjI impI)
  assume "compute_distances F trkpts = Inr ds"
  then show "length ds = max 1 (length trkpts)"
    using compute_distances_length_of_result by blast
next
  show "compute_distances F [] = Inr [0]" by (rule compute_distances_empty)
next
  assume "\<forall>i. Suc i < length trkpts \<longrightarrow>
          (\<exists>d. haversine F (fst (trkpts ! i)) (fst (snd (trkpts ! i)))
                            (fst (trkpts ! Suc i)) (fst (snd (trkpts ! Suc i))) = Inr d)"
  then obtain r where "compute_distances F trkpts = Inr r"
    using compute_distances_returns_when by blast
  then show "\<exists>r. compute_distances F trkpts = Inr r \<and> length r = max 1 (length trkpts)"
    using compute_distances_length_of_result by blast
qed

theorem compute_distances_length_witness:
  "(\<exists>r. compute_distances exact_fpu [(0, 0, 0), (45, 90, 10), (- 90, 10, 3)] = Inr r \<and> length r = 3)
   \<and> (\<exists>r. compute_distances double_fpu [(0, 0, 1), (0, 1, 2), (1, 1, 3)] = Inr r \<and> length r = 3)"
proof -
  obtain ds where ds: "compute_distances double_fpu [(0, 0, 1), (0, 1, 2), (1, 1, 3)] = Inr ds"
    using compute_distances_double_example by blast
  then have "length ds = 3"
    using compute_distances_length [of double_fpu "[(0, 0, 1), (0, 1, 2), (1, 1, 3)]" ds] by simp
  then show ?thesis
    using ds compute_distances_length [of exact_fpu "[(0, 0, 0), (45, 90, 10), (- 90, 10, 3)]"]
    by (auto simp: haversine_exact_returns numeral_3_eq_3)
qed

subsection \<open>Slope classification\<close>

text \<open>
  Claim C5. \<^verbatim>\<open>slope_to_color\<close> is total, and its result is determined by the percent grade,
  the float \<^verbatim>\<open>pct = slope * 100\<close> as computed (the rounded product), with strict upper
  boundaries: below 0 blue, \<open>[0, 3)\<close> darkgreen, \<open>[3, 6)\<close> limegreen, \<open>[6, 10)\<close> yellow,
  \<open>[10, 15)\<close> orange, from 15 on red; the percent grades -0.1, 0, 2.9, 3, 5.9, 6, 9.9, 10,
  14.9, 15 and 20 get the documented colours. So the doubles 0.03, 0.06 and 0.15, whose
  products with 100 round to 3, 6 and 15, are limegreen, yellow and red.
\<close>

theorem slope_to_color_grades:
  "slope_to_color F slope = color_of_pct (fmul F slope (Finite 100))
   \<and> (p < 0 \<longrightarrow> color_of_pct (Finite p) = ''blue'')
   \<and> (0 \<le> p \<and> p < 3 \<longrightarrow> color_of_pct (Finite p) = ''darkgreen'')
   \<and> (3 \<le> p \<and> p < 6 \<longrightarrow> color_of_pct (Finite p) = ''limegreen'')
   \<and> (6 \<le> p \<and> p < 10 \<longrightarrow> color_of_pct (Finite p) = ''yellow'')
   \<and> (10 \<le> p \<and> p < 15 \<longrightarrow> color_of_pct (Finite p) = ''orange'')
   \<and> (15 \<le> p \<longrightarrow> color_of_pct (Finite p) = ''red'')
   \<and> color_of_pct NegInf = ''blue'' \<and> color_of_pct PosInf = ''red''
   \<and> map (\<lambda>g. color_of_pct (Finite g)) [- 0.1, 0, 2.9, 3, 5.9, 6, 9.9, 10, 14.9, 15, 20]
      = [''blue'', ''darkgreen'', ''darkgreen'', ''limegreen'', ''limegreen'', ''yellow'',
         ''yellow'', ''orange'', ''orange'', ''red'', ''red'']"
  by (simp add: slope_to_color_def color_of_pct_def)

theorem slope_to_color_grades_witness:
  "slope_to_color double_fpu (Finite (1080863910568919 / 2 ^ 55)) = ''limegreen''
   \<and> slope_to_color double_fpu (Finite (1080863910568919 / 2 ^ 54)) = ''yellow''
   \<and> slope_to_color double_fpu (Finite (5404319552844595 / 2 ^ 55)) = ''red''
   \<and> color_of_pct (Finite (- 2)) = ''blue''
   \<and> color_of_pct (Finite 1) = ''darkgreen''
   \<and> color_of_pct (Finite 12) = ''orange''"
proof -
  have r: "rnd double_fpu = round_double" by simp
  have "slope_to_color double_fpu (Finite (1080863910568919 / 2 ^ 55)) = color_of_pct (Finite 3)"
    using slope_to_color_grades [of double_fpu "Finite (1080863910568919 / 2 ^ 55)"]
    by (simp only: fmul.simps r pct_of_double_003 overflow_small)
  moreover have "slope_to_color double_fpu (Finite (1080863910568919 / 2 ^ 54)) = color_of_pct (Finite 6)"
    using slope_to_color_grades [of double_fpu "Finite (1080863910568919 / 2 ^ 54)"]
    by (simp only: fmul.simps r pct_of_double_006 overflow_small)
  moreover have "slope_to_color double_fpu (Finite (5404319552844595 / 2 ^ 55)) = color_of_pct (Finite 15)"
    using slope_to_color_grades [of double_fpu "Finite (5404319552844595 / 2 ^ 55)"]
    by (simp only: fmul.simps r pct_of_double_015 overflow_small)
  ultimately show ?thesis
    using slope_to_color_grades [of F slope 3] slope_to_color_grades [of F slope 6]
      slope_to_color_grades [of F slope 15] slope_to_color_grades [of F slope "- 2"]
      slope_to_color_grades [of F slope 1] slope_to_color_grades [of F slope 12]
    by simp
qed

text \<open>
  Claim C10. \<^verbatim>\<open>slope_to_color\<close> returns one of its six colours for every float, and for a
  NaN slope, for which every comparison is false, it falls through to \<^verbatim>\<open>'red'\<close>.
\<close>

theorem slope_to_color_nan:
  "slope_to_color F NaN = ''red''
   \<and> slope_to_color F x \<in> {''blue'', ''darkgreen'', ''limegreen'', ''yellow'', ''orange'', ''red''}"
  by (simp add: slope_to_color_def color_of_pct_def Let_def)

subsection \<open>Empty track\<close>

text \<open>
  Claim C8. When the parsed track-point sequence is empty, \<^verbatim>\<open>main\<close> prints the line
  \<^verbatim>\<open>No track points found.\<close> and returns: no exception, no plot, nothing else.
\<close>

theorem main_empty_track:
  "main F ([], wpts) = Inr [Printed ''No track points found.'']"
  by (simp add: main_def)

subsection \<open>Interpolation at the sample points\<close>

text \<open>
  Claim C3, as stated: for every non-decreasing distance series starting at 0 with its
  aligned elevations and every index \<open>i\<close>, interpolating at \<open>dists[i]\<close> gives \<open>eles[i]\<close>.
  It fails where two consecutive points are at the same distance with different
  elevations, as for a track that stays at one place: the function sees only the
  distance, and returns the elevation of index 1 for the distance of index 0.
\<close>

theorem interpolate_elevation_duplicate_counterexample:
  "compute_distances double_fpu [(0, 0, 5), (0, 0, 7)] = Inr [0, 0]
   \<and> compute_distances exact_fpu [(0, 0, 5), (0, 0, 7)] = Inr [0, 0]
   \<and> map (\<lambda>pt. snd (snd pt)) [(0, 0, 5), (0, 0, 7 :: real) :: trkpt] = [5, 7]
   \<and> sorted [0, 0 :: real] \<and> [0, 0 :: real] ! 0 = 0
   \<and> interpolate_elevation ([0, 0] ! 0) [0, 0] [5, 7] = Inr 7
   \<and> [5, 7 :: real] ! 0 \<noteq> 7"
  by (simp add: compute_distances_two haversine_same_point [OF sound_fpu_exact]
      haversine_same_point_double fl_add_def
      interpolate_elevation_def interpolate_loop_hit interpolate_at_def py_index_def)

text \<open>
  Claim C3, amended: for every non-decreasing distance series with its aligned elevations
  and every index \<open>i\<close> reached by a step of non-zero length (\<open>dists[i-1] < dists[i]\<close> when
  \<open>i > 0\<close>; for \<open>i = 0\<close>, a single point or \<open>dists[0] < dists[1]\<close>), interpolating at
  \<open>dists[i]\<close> gives exactly \<open>eles[i]\<close>; in particular at every index of a strictly
  increasing series.
\<close>

theorem interpolate_elevation_at_sample:
  assumes "sorted dists" and "length eles = length dists" and "i < length dists"
    and "0 < i \<longrightarrow> dists ! (i - 1) < dists ! i"
    and "i = 0 \<longrightarrow> length dists = 1 \<or> dists ! 0 < dists ! 1"
  shows "interpolate_elevation (dists ! i) dists eles = Inr (eles ! i)"
proof (cases "i = 0")
  case False
  then have i: "0 < i" and lt: "dists ! (i - 1) < dists ! i" using assms(4) by auto
  have "dists ! j < dists ! i" if "0 < j \<and> j < i" for j
  proof -
    have "dists ! j \<le> dists ! (i - 1)"
      using that assms(1,3) by (intro sorted_nth_mono) auto
    then show ?thesis using lt by simp
  qed
  then show ?thesis
    using interpolate_elevation_first_hit [OF i assms(3,2), of "dists ! i"] lt by simp
next
  case True
  show ?thesis
  proof (cases "length dists = 1")
    case True
    then have "interpolate_elevation (dists ! i) dists eles = py_last eles"
      by (intro interpolate_elevation_past_end) auto
    moreover have "eles \<noteq> []" using True assms(2) by auto
    moreover have "last eles = eles ! 0"
      using True assms(2) \<open>eles \<noteq> []\<close> by (simp add: last_conv_nth)
    ultimately show ?thesis using \<open>i = 0\<close> by (simp add: py_last_def)
  next
    case False
    then have lt: "dists ! 0 < dists ! 1" using assms(5) \<open>i = 0\<close> by simp
    have len: "1 < length dists"
      using False assms(3) by (cases dists) auto
    have "interpolate_elevation (dists ! 0) dists eles =
          Inr (if dists ! 1 = dists ! (1 - 1) then eles ! 1
               else eles ! (1 - 1)
                    + (dists ! 0 - dists ! (1 - 1)) / (dists ! 1 - dists ! (1 - 1))
                      * (eles ! 1 - eles ! (1 - 1)))"
      using lt by (intro interpolate_elevation_first_hit [OF _ len assms(2)]) auto
    then show ?thesis using lt \<open>i = 0\<close> by simp
  qed
qed

theorem interpolate_elevation_at_sample_witness:
  "sorted [0, 10, 10, 25 :: real] \<and> length [1, 2, 3, 4 :: real] = length [0, 10, 10, 25 :: real]
   \<and> (3 :: nat) < length [0, 10, 10, 25 :: real]
   \<and> [0, 10, 10, 25 :: real] ! (3 - 1) < [0, 10, 10, 25] ! 3
   \<and> interpolate_elevation ([0, 10, 10, 25] ! 3) [0, 10, 10, 25] [1, 2, 3, 4] = Inr ([1, 2, 3, 4] ! 3)
   \<and> [0, 10, 10, 25 :: real] ! 0 < [0, 10, 10, 25] ! 1
   \<and> interpolate_elevation ([0, 10, 10, 25] ! 0) [0, 10, 10, 25] [1, 2, 3, 4] = Inr ([1, 2, 3, 4] ! 0)"
  using interpolate_elevation_at_sample [of "[0, 10, 10, 25]" "[1, 2, 3, 4]" 3]
    interpolate_elevation_at_sample [of "[0, 10, 10, 25]" "[1, 2, 3, 4]" 0]
  by simp

subsection \<open>Waypoints\<close>



subsection \<open>Division by zero\<close>

text \<open>
  Claim C9. For every distance series of length at least 1 with its aligned elevations, no
  division by zero is evaluated in \<^verbatim>\<open>interpolate_elevation\<close> or \<^verbatim>\<open>segment_slopes\<close> (called,
  as the program does, with the default segment length, or with any other non-zero one):
  \<^verbatim>\<open>interpolate_elevation\<close> returns a value for every query, and where the first index \<open>i\<close>
  with \<open>distance \<le> dists[i]\<close> closes a zero-length step it returns \<open>eles[i]\<close>;
  \<^verbatim>\<open>segment_slopes\<close> never raises ZeroDivisionError and returns its segments when the total
  distance is not negative; the slope of a zero-length interval is 0.
\<close>

theorem no_division_by_zero:
  assumes "dists \<noteq> []" and "length eles = length dists"
  shows "(\<exists>v. interpolate_elevation distance dists eles = Inr v)
       \<and> segment_slopes dists eles 100 \<noteq> Inl ZeroDivisionError
       \<and> (segment \<noteq> 0 \<longrightarrow> segment_slopes dists eles segment \<noteq> Inl ZeroDivisionError)
       \<and> (0 \<le> last dists \<longrightarrow> (\<exists>segs. segment_slopes dists eles 100 = Inr segs))
       \<and> (0 < i \<and> i < length dists \<and> (\<forall>j. 0 < j \<and> j < i \<longrightarrow> dists ! j < distance)
            \<and> distance \<le> dists ! i \<and> dists ! i = dists ! (i - 1)
          \<longrightarrow> interpolate_elevation distance dists eles = Inr (eles ! i))
       \<and> segment_slope start_e end_e 0 = Inr 0
       \<and> segments_of [b, b] dists eles = Inr [(b, b, 0)]"
proof -
  have 1: "\<exists>v. interpolate_elevation distance dists eles = Inr v"
    by (rule interpolate_elevation_returns [OF assms])
  have 2: "segment_slopes dists eles 100 \<noteq> Inl ZeroDivisionError"
    by (rule segment_slopes_no_zero_division) simp
  have 3: "segment \<noteq> 0 \<longrightarrow> segment_slopes dists eles segment \<noteq> Inl ZeroDivisionError"
    by (simp add: segment_slopes_no_zero_division)
  have 4: "0 \<le> last dists \<longrightarrow> (\<exists>segs. segment_slopes dists eles 100 = Inr segs)"
    using segment_slopes_default [OF assms] by blast
  have 5: "0 < i \<and> i < length dists \<and> (\<forall>j. 0 < j \<and> j < i \<longrightarrow> dists ! j < distance)
            \<and> distance \<le> dists ! i \<and> dists ! i = dists ! (i - 1)
          \<longrightarrow> interpolate_elevation distance dists eles = Inr (eles ! i)"
    using interpolate_elevation_first_hit [OF _ _ assms(2), of i distance] by simp
  have 6: "segment_slope start_e end_e 0 = Inr 0"
    by (simp add: segment_slope_value)
  obtain v where v: "interpolate_elevation b dists eles = Inr v"
    using interpolate_elevation_returns [OF assms] by blast
  have 7: "segments_of [b, b] dists eles = Inr [(b, b, 0)]"
    by (simp add: v segment_slope_value)
  show ?thesis using 1 2 3 4 5 6 7 by blast
qed

theorem no_division_by_zero_witness:
  "[0, 0, 10] \<noteq> ([] :: real list) \<and> length [5, 7, 9 :: real] = length [0, 0, 10 :: real]
   \<and> interpolate_elevation 0 [0, 0, 10] [5, 7, 9] = Inr 7
   \<and> segment_slopes [0, 0, 10] [5, 7, 9] 100 \<noteq> Inl ZeroDivisionError
   \<and> segments_of [0, 0] [0, 0, 10] [5, 7, 9] = Inr [(0, 0, 0)]"
  using no_division_by_zero [of "[0, 0, 10]" "[5, 7, 9]" 0 100 1 0 0 0]
  by (auto simp del: segments_of.simps)

subsection \<open>Segments\<close>

text \<open>
  Claim C1 says that the segments tile \<open>[0, total]\<close> and that the last segment ends at the
  total distance. The code builds the boundaries \<open>0, 100, \<dots>, 100 (\<lfloor>total / 100\<rfloor> + 1)\<close>:
  the last one is already beyond the total, so the test \<^verbatim>\<open>boundaries[-1] < total\<close> that
  would append the total never succeeds (\<open>segment_slopes_default_shape\<close>). On the series
  \<open>[0, 111, 222]\<close> the last segment is \<open>[200, 300]\<close>, not \<open>[200, 222]\<close>.
\<close>

theorem segment_slopes_last_end_beyond_total:
  "segment_slopes [0, 111, 222] [0, 10, 5] 100
     = Inr [(0, 100, 10 / 111), (100, 200, - (67 / 2220)), (200, 300, - (11 / 1110))]
   \<and> last [0, 111, 222 :: real] = 222"
  by code_simp

text \<open>
  Claim C2 says that a total distance that is an exact multiple of the segment length gives
  \<open>total / 100\<close> segments. For the same reason the code gives one more: on the series
  \<open>[0, 200]\<close> it returns three segments, the third, \<open>[200, 300]\<close>, past the end of the track.
\<close>

theorem segment_slopes_count_exact_multiple:
  "segment_slopes [0, 200] [0, 5] 100 = Inr [(0, 100, 1 / 40), (100, 200, 1 / 40), (200, 300, 0)]
   \<and> last [0, 200 :: real] / 100 = 2"
  by code_simp

end
